theory Spec2Isabelle
  imports Main
begin

section \<open>The paged duplex stream of the interface manager\<close>

text \<open>
  The class \<open>PagedDuplexStream\<close> of
  \<^verbatim>\<open>src/commands/interface-manager/PagedDuplexStream.ts\<close> keeps an
  uncommitted text \<open>buffer\<close>, an array of \<open>pages\<close> whose last element is the
  page being filled, the node of the last commit and the size limit fixed by
  the constructor.

  A JavaScript string is a sequence of code units and \<open>.length\<close> counts them;
  a page is modelled as a \<open>string\<close>, one \<open>char\<close> for each code unit. The
  document node is opaque to the class and is a type parameter. The size limit
  is a number that the class only ever compares with the sum of two lengths;
  it is a natural number here (the constructor's default is 20000).
\<close>

subsection \<open>State\<close>

record 'n PagedDuplexStream =
  buffer :: string
  pages :: "string list"
  lastCommittedNode :: "'n option"
  sizeLimit :: nat

text \<open>
  Two things can be thrown. \<open>OversizeCommit\<close> is the
  \<^verbatim>\<open>TypeError('Commit is too large, could not write a page for this commit')\<close>
  of \<open>commit\<close>. \<open>UndefinedCurrentPage\<close> is the TypeError that JavaScript
  raises when \<open>.length\<close> is read from \<open>undefined\<close>, which is what the getter
  \<open>currentPage\<close> yields on an empty array of pages.
\<close>

datatype error = OversizeCommit | UndefinedCurrentPage

text \<open>
  A method call yields what it returned or threw, together with the object as
  the call left it.
\<close>

type_synonym ('a, 'n) outcome = "(error + 'a) \<times> 'n PagedDuplexStream"

text \<open>The constructor: field initialisers and the \<open>sizeLimit\<close> parameter.\<close>

definition new_stream :: "nat \<Rightarrow> 'n PagedDuplexStream" where
  "new_stream lim =
     \<lparr>buffer = [], pages = [[]], lastCommittedNode = None, sizeLimit = lim\<rparr>"

text \<open>The constructor called without an argument takes the default limit.\<close>

definition new_stream_default :: "'n PagedDuplexStream" where
  "new_stream_default = new_stream 20000"

subsection \<open>Methods\<close>

text \<open>
  \<^verbatim>\<open>this.pages.at(this.pages.length - 1)\<close>: on an empty array the index is
  \<open>-1\<close> and \<open>at\<close> returns \<open>undefined\<close>.
\<close>

definition currentPage :: "'n PagedDuplexStream \<Rightarrow> string option" where
  "currentPage s = (if pages s = [] then None else Some (pages s ! (length (pages s) - 1)))"

text \<open>
  \<^verbatim>\<open>this.pages[currentIndex] = this.pages[currentIndex] + string\<close>. On an
  empty array \<open>currentIndex\<close> is \<open>-1\<close>, the assignment creates a property
  of that name and the elements of the array stay as they are.
\<close>

definition appendToCurrentPage :: "string \<Rightarrow> 'n PagedDuplexStream \<Rightarrow> 'n PagedDuplexStream" where
  "appendToCurrentPage str s =
     (if pages s = [] then s
      else s\<lparr>pages := (pages s)[length (pages s) - 1 :=
                          pages s ! (length (pages s) - 1) @ str]\<rparr>)"

definition writeString :: "string \<Rightarrow> 'n PagedDuplexStream \<Rightarrow> 'n PagedDuplexStream" where
  "writeString str s = s\<lparr>buffer := buffer s @ str\<rparr>"

definition getPosition :: "'n PagedDuplexStream \<Rightarrow> nat" where
  "getPosition s = length (buffer s)"

definition isPageAndBufferOverSize :: "'n PagedDuplexStream \<Rightarrow> error + bool" where
  "isPageAndBufferOverSize s =
     (case currentPage s of
        None \<Rightarrow> Inl UndefinedCurrentPage
      | Some p \<Rightarrow> Inr (length p + length (buffer s) > sizeLimit s))"

definition ensureNewPage :: "'n PagedDuplexStream \<Rightarrow> (unit, 'n) outcome" where
  "ensureNewPage s =
     (case currentPage s of
        None \<Rightarrow> (Inl UndefinedCurrentPage, s)
      | Some p \<Rightarrow>
          (if length p \<noteq> 0 then (Inr (), s\<lparr>pages := pages s @ [[]]\<rparr>)
           else (Inr (), s)))"

text \<open>
  \<open>commit\<close>: the size check with its throw and the call of \<open>ensureNewPage\<close>
  come first; when that part returned, the buffer is appended to the current
  page, the buffer is emptied and the node is recorded.
\<close>

definition commit :: "'n \<Rightarrow> 'n PagedDuplexStream \<Rightarrow> (unit, 'n) outcome" where
  "commit node s =
     (case isPageAndBufferOverSize s of
        Inl e \<Rightarrow> (Inl e, s)
      | Inr over \<Rightarrow>
          (case (if over then
                   (case currentPage s of
                      None \<Rightarrow> (Inl UndefinedCurrentPage, s)
                    | Some p \<Rightarrow>
                        (if length p = 0 \<and> length (buffer s) > sizeLimit s
                         then (Inl OversizeCommit, s)
                         else ensureNewPage s))
                 else (Inr (), s)) of
             (Inl e, s1) \<Rightarrow> (Inl e, s1)
           | (Inr u, s1) \<Rightarrow>
               (Inr (), (appendToCurrentPage (buffer s1) s1)
                          \<lparr>buffer := [], lastCommittedNode := Some node\<rparr>)))"

definition getLastCommittedNode :: "'n PagedDuplexStream \<Rightarrow> 'n option" where
  "getLastCommittedNode s = lastCommittedNode s"

definition peekPage :: "'n PagedDuplexStream \<Rightarrow> string option" where
  "peekPage s = (if length (pages s) < 2 then None else Some (pages s ! 0))"

text \<open>
  \<^verbatim>\<open>this.pages.shift()\<close> removes the first element and returns it, or
  returns \<open>undefined\<close> on an empty array.
\<close>

definition readPage :: "'n PagedDuplexStream \<Rightarrow> string option \<times> 'n PagedDuplexStream" where
  "readPage s =
     (if length (pages s) < 2 then (None, s)
      else (case pages s of
              [] \<Rightarrow> (None, s)
            | p # ps \<Rightarrow> (Some p, s\<lparr>pages := ps\<rparr>)))"

subsection \<open>Sequences of calls\<close>

text \<open>
  A caller is a sequence of calls of the public methods. A call that throws
  leaves the object as it was at the throw, and the caller goes on.
\<close>

datatype 'n call =
    WriteString string
  | GetPosition
  | IsPageAndBufferOverSize
  | EnsureNewPage
  | Commit 'n
  | GetLastCommittedNode
  | PeekPage
  | ReadPage

datatype 'n returned =
    RSelf
  | RNumber nat
  | RBoolean bool
  | RVoid
  | RNode "'n option"
  | RPage "string option"

fun exec :: "'n call \<Rightarrow> 'n PagedDuplexStream \<Rightarrow> ('n returned, 'n) outcome" where
  "exec (WriteString str) s = (Inr RSelf, writeString str s)"
| "exec GetPosition s = (Inr (RNumber (getPosition s)), s)"
| "exec IsPageAndBufferOverSize s =
     (case isPageAndBufferOverSize s of
        Inl e \<Rightarrow> (Inl e, s)
      | Inr b \<Rightarrow> (Inr (RBoolean b), s))"
| "exec EnsureNewPage s =
     (case ensureNewPage s of
        (Inl e, s1) \<Rightarrow> (Inl e, s1)
      | (Inr u, s1) \<Rightarrow> (Inr RVoid, s1))"
| "exec (Commit node) s =
     (case commit node s of
        (Inl e, s1) \<Rightarrow> (Inl e, s1)
      | (Inr u, s1) \<Rightarrow> (Inr RVoid, s1))"
| "exec GetLastCommittedNode s = (Inr (RNode (getLastCommittedNode s)), s)"
| "exec PeekPage s = (Inr (RPage (peekPage s)), s)"
| "exec ReadPage s = (case readPage s of (r, s1) \<Rightarrow> (Inr (RPage r), s1))"

text \<open>The object after a sequence of calls.\<close>

fun after :: "'n call list \<Rightarrow> 'n PagedDuplexStream \<Rightarrow> 'n PagedDuplexStream" where
  "after [] s = s"
| "after (c # cs) s = after cs (snd (exec c s))"

text \<open>The pages that the \<open>readPage\<close> calls of a sequence returned, in order.\<close>

fun drained :: "'n call list \<Rightarrow> 'n PagedDuplexStream \<Rightarrow> string list" where
  "drained [] s = []"
| "drained (ReadPage # cs) s =
     (case readPage s of
        (Some p, s1) \<Rightarrow> p # drained cs s1
      | (None, s1) \<Rightarrow> drained cs s1)"
| "drained (c # cs) s = drained cs (snd (exec c s))"

text \<open>The strings that the \<open>writeString\<close> calls of a sequence passed, in order.\<close>

fun written :: "'n call list \<Rightarrow> string list" where
  "written [] = []"
| "written (WriteString str # cs) = str # written cs"
| "written (c # cs) = written cs"

text \<open>
  Every \<open>commit\<close> of the sequence finds a buffer no longer than the size
  limit.
\<close>

fun commits_fit :: "'n call list \<Rightarrow> 'n PagedDuplexStream \<Rightarrow> bool" where
  "commits_fit [] s = True"
| "commits_fit (Commit node # cs) s =
     (length (buffer s) \<le> sizeLimit s \<and> commits_fit cs (snd (exec (Commit node) s)))"
| "commits_fit (c # cs) s = commits_fit cs (snd (exec c s))"

text \<open>
  Some \<open>commit\<close> of the sequence found text in the buffer and returned.
\<close>

fun text_committed :: "'n call list \<Rightarrow> 'n PagedDuplexStream \<Rightarrow> bool" where
  "text_committed [] s = False"
| "text_committed (Commit node # cs) s =
     ((buffer s \<noteq> [] \<and> fst (commit node s) = Inr ())
      \<or> text_committed cs (snd (exec (Commit node) s)))"
| "text_committed (c # cs) s = text_committed cs (snd (exec c s))"

subsection \<open>Predicates on the state\<close>

text \<open>Every page is within the size limit.\<close>

definition pages_fit :: "'n PagedDuplexStream \<Rightarrow> bool" where
  "pages_fit s = (\<forall>p \<in> set (pages s). length p \<le> sizeLimit s)"

text \<open>Every page before the current one holds some text.\<close>

definition closed_pages_nonempty :: "'n PagedDuplexStream \<Rightarrow> bool" where
  "closed_pages_nonempty s = (\<forall>p \<in> set (butlast (pages s)). p \<noteq> [])"

section \<open>The methods on an object that has a current page\<close>

text \<open>
  The constructor makes one page, \<open>push\<close> adds pages and \<open>shift\<close> runs
  only on two pages or more, so an object reached from the constructor always
  has a current page (\<open>new_stream_pages_nonempty\<close> below). On such an object
  the methods reduce to the following equations.
\<close>

lemma update_last: "xs \<noteq> [] \<Longrightarrow> xs[length xs - Suc 0 := v] = butlast xs @ [v]"
  by (induction xs rule: rev_induct) simp_all

lemma nth_last: "xs \<noteq> [] \<Longrightarrow> xs ! (length xs - Suc 0) = last xs"
  by (simp add: last_conv_nth)

lemma set_butlast_last: "xs \<noteq> [] \<Longrightarrow> set xs = insert (last xs) (set (butlast xs))"
  by (induction xs rule: rev_induct) auto

lemma currentPage_last: "pages s \<noteq> [] \<Longrightarrow> currentPage s = Some (last (pages s))"
  by (simp add: currentPage_def nth_last)

lemma currentPage_SomeD: "currentPage s = Some p \<Longrightarrow> pages s \<noteq> [] \<and> p = last (pages s)"
  by (auto simp: currentPage_def nth_last split: if_splits)

lemma appendToCurrentPage_last:
  "pages s \<noteq> [] \<Longrightarrow>
     appendToCurrentPage str s = s\<lparr>pages := butlast (pages s) @ [last (pages s) @ str]\<rparr>"
  by (simp add: appendToCurrentPage_def update_last nth_last)

lemma ensureNewPage_cases:
  "pages s \<noteq> [] \<Longrightarrow>
     ensureNewPage s = (Inr (), if last (pages s) = [] then s else s\<lparr>pages := pages s @ [[]]\<rparr>)"
  by (simp add: ensureNewPage_def currentPage_last)

lemma isPageAndBufferOverSize_cases:
  "pages s \<noteq> [] \<Longrightarrow>
     isPageAndBufferOverSize s = Inr (sizeLimit s < length (last (pages s)) + length (buffer s))"
  by (simp add: isPageAndBufferOverSize_def currentPage_last)

lemma commit_cases:
  "pages s \<noteq> [] \<Longrightarrow>
     commit node s =
       (if sizeLimit s < length (last (pages s)) + length (buffer s) then
          (if last (pages s) = [] then (Inl OversizeCommit, s)
           else (Inr (), s\<lparr>pages := pages s @ [buffer s], buffer := [],
                            lastCommittedNode := Some node\<rparr>))
        else (Inr (), s\<lparr>pages := butlast (pages s) @ [last (pages s) @ buffer s],
                         buffer := [], lastCommittedNode := Some node\<rparr>))"
  by (simp add: commit_def isPageAndBufferOverSize_cases currentPage_last
        ensureNewPage_cases appendToCurrentPage_last)

lemma readPage_cases:
  "readPage s = (if length (pages s) < 2 then (None, s)
                 else (Some (hd (pages s)), s\<lparr>pages := tl (pages s)\<rparr>))"
  by (cases "pages s") (simp_all add: readPage_def)

subsection \<open>What every call keeps\<close>

lemma exec_pages_nonempty: "pages s \<noteq> [] \<Longrightarrow> pages (snd (exec c s)) \<noteq> []"
  by (cases c) (auto simp: writeString_def isPageAndBufferOverSize_cases ensureNewPage_cases
      commit_cases readPage_cases intro: list.exhaust_sel
      dest: arg_cong [where f = length])

lemma after_pages_nonempty: "pages s \<noteq> [] \<Longrightarrow> pages (after cs s) \<noteq> []"
  by (induction cs arbitrary: s) (simp_all add: exec_pages_nonempty)

lemma new_stream_pages_nonempty: "pages (after cs (new_stream lim)) \<noteq> []"
  by (rule after_pages_nonempty) (simp add: new_stream_def)

lemma exec_sizeLimit: "pages s \<noteq> [] \<Longrightarrow> sizeLimit (snd (exec c s)) = sizeLimit s"
  by (cases c) (simp_all add: writeString_def isPageAndBufferOverSize_cases ensureNewPage_cases
      commit_cases readPage_cases)

lemma after_sizeLimit: "pages s \<noteq> [] \<Longrightarrow> sizeLimit (after cs s) = sizeLimit s"
  by (induction cs arbitrary: s) (simp_all add: exec_pages_nonempty exec_sizeLimit)

subsection \<open>Pages within the limit\<close>

lemma commits_fit_Cons:
  "commits_fit (c # cs) s \<longleftrightarrow> commits_fit [c] s \<and> commits_fit cs (snd (exec c s))"
  by (cases c) simp_all

lemma exec_pages_fit:
  assumes "pages s \<noteq> []" and "pages_fit s" and "commits_fit [c] s"
  shows "pages_fit (snd (exec c s))"
proof (cases c)
  case (Commit node)
  with assms show ?thesis
    by (auto simp: pages_fit_def commit_cases dest: in_set_butlastD)
next
  case ReadPage
  with assms show ?thesis
    by (auto simp: pages_fit_def readPage_cases dest: list.set_sel(2))
qed (use assms in \<open>auto simp: pages_fit_def writeString_def isPageAndBufferOverSize_cases
      ensureNewPage_cases\<close>)

lemma after_pages_fit:
  "pages s \<noteq> [] \<Longrightarrow> pages_fit s \<Longrightarrow> commits_fit cs s \<Longrightarrow> pages_fit (after cs s)"
proof (induction cs arbitrary: s)
  case Nil
  then show ?case by simp
next
  case (Cons c cs)
  from Cons.prems(3) have one: "commits_fit [c] s" and rest: "commits_fit cs (snd (exec c s))"
    by (simp_all add: commits_fit_Cons [of c cs])
  have "pages_fit (after cs (snd (exec c s)))"
    using Cons.prems(1,2) one rest
    by (intro Cons.IH exec_pages_nonempty exec_pages_fit)
  then show ?case by simp
qed

lemma commits_fit_take: "commits_fit cs s \<Longrightarrow> commits_fit (take k cs) s"
proof (induction cs arbitrary: s k)
  case Nil
  then show ?case by simp
next
  case (Cons c cs)
  show ?case
  proof (cases k)
    case 0
    then show ?thesis by simp
  next
    case (Suc j)
    from Cons.prems have "commits_fit [c] s" and "commits_fit cs (snd (exec c s))"
      by (simp_all add: commits_fit_Cons [of c cs])
    with Cons.IH [of "snd (exec c s)" j] Suc show ?thesis
      by (simp add: commits_fit_Cons [of c "take j cs"])
  qed
qed

subsection \<open>No text is lost\<close>

lemma drained_Cons: "drained (c # cs) s = drained [c] s @ drained cs (snd (exec c s))"
  by (cases c) (simp_all split: prod.splits option.splits)

lemma written_Cons: "written (c # cs) = written [c] @ written cs"
  by (cases c) simp_all

lemma exec_text_preserved:
  assumes "pages s \<noteq> []"
  shows "concat (drained [c] s) @ concat (pages (snd (exec c s))) @ buffer (snd (exec c s))
           = concat (pages s) @ buffer s @ concat (written [c])"
proof (cases c)
  case (Commit node)
  have "concat (butlast (pages s)) @ last (pages s) = concat (pages s)"
    using assms by (metis append_butlast_last_id concat.simps concat_append append_Nil2)
  with Commit assms show ?thesis
    by (simp add: commit_cases)
next
  case ReadPage
  have "2 \<le> length (pages s) \<Longrightarrow> hd (pages s) @ concat (tl (pages s)) = concat (pages s)"
    using assms by (cases "pages s") simp_all
  with ReadPage show ?thesis
    by (simp add: readPage_cases)
qed (use assms in \<open>simp_all add: writeString_def isPageAndBufferOverSize_cases
      ensureNewPage_cases\<close>)

lemma after_text_preserved:
  "pages s \<noteq> [] \<Longrightarrow>
     concat (drained cs s) @ concat (pages (after cs s)) @ buffer (after cs s)
       = concat (pages s) @ buffer s @ concat (written cs)"
proof (induction cs arbitrary: s)
  case Nil
  then show ?case by simp
next
  case (Cons c cs)
  let ?s1 = "snd (exec c s)"
  have ne: "pages ?s1 \<noteq> []"
    using Cons.prems by (rule exec_pages_nonempty)
  have "concat (drained (c # cs) s) @ concat (pages (after (c # cs) s)) @ buffer (after (c # cs) s)
          = concat (drained [c] s)
              @ (concat (drained cs ?s1) @ concat (pages (after cs ?s1)) @ buffer (after cs ?s1))"
    by (simp add: drained_Cons [of c cs])
  also have "\<dots> = concat (drained [c] s) @ (concat (pages ?s1) @ buffer ?s1 @ concat (written cs))"
    by (simp only: Cons.IH [OF ne])
  also have "\<dots> = (concat (drained [c] s) @ concat (pages ?s1) @ buffer ?s1) @ concat (written cs)"
    by simp
  also have "\<dots> = (concat (pages s) @ buffer s @ concat (written [c])) @ concat (written cs)"
    by (simp only: exec_text_preserved [OF Cons.prems])
  also have "\<dots> = concat (pages s) @ buffer s @ concat (written (c # cs))"
    by (simp add: written_Cons [of c cs])
  finally show ?case .
qed

subsection \<open>Closed pages hold text\<close>

lemma exec_closed_pages_nonempty:
  assumes "pages s \<noteq> []" and "closed_pages_nonempty s"
  shows "closed_pages_nonempty (snd (exec c s))"
proof (cases c)
  case (Commit node)
  with assms show ?thesis
    by (auto simp: closed_pages_nonempty_def commit_cases butlast_append
          set_butlast_last [of "pages s"])
next
  case EnsureNewPage
  with assms show ?thesis
    by (auto simp: closed_pages_nonempty_def ensureNewPage_cases butlast_append
          set_butlast_last [of "pages s"])
next
  case ReadPage
  have "set (butlast (tl (pages s))) \<subseteq> set (butlast (pages s))"
    by (cases "pages s") (auto split: if_splits)
  with ReadPage assms show ?thesis
    by (auto simp: closed_pages_nonempty_def readPage_cases)
qed (use assms in \<open>simp_all add: closed_pages_nonempty_def writeString_def
      isPageAndBufferOverSize_cases\<close>)

lemma after_closed_pages_nonempty:
  "pages s \<noteq> [] \<Longrightarrow> closed_pages_nonempty s \<Longrightarrow> closed_pages_nonempty (after cs s)"
  by (induction cs arbitrary: s) (simp_all add: exec_pages_nonempty exec_closed_pages_nonempty)

lemma new_stream_closed_pages_nonempty:
  "closed_pages_nonempty (after cs (new_stream lim))"
  by (rule after_closed_pages_nonempty) (simp_all add: new_stream_def closed_pages_nonempty_def)

lemma closed_pages_nonempty_nth:
  "closed_pages_nonempty s \<Longrightarrow> Suc i < length (pages s) \<Longrightarrow> pages s ! i \<noteq> []"
proof -
  assume inv: "closed_pages_nonempty s" and i: "Suc i < length (pages s)"
  then have "butlast (pages s) ! i \<in> set (butlast (pages s))"
    by (intro nth_mem) simp
  moreover have "butlast (pages s) ! i = pages s ! i"
    using i by (simp add: nth_butlast)
  ultimately show ?thesis using inv by (auto simp: closed_pages_nonempty_def)
qed

subsection \<open>Pages after a commit of text\<close>

lemma text_committed_Cons:
  "text_committed (c # cs) s \<longleftrightarrow>
     text_committed [c] s \<or> text_committed cs (snd (exec c s))"
  by (cases c) simp_all

lemma exec_pages_all_nonempty:
  assumes "pages s \<noteq> []" and "pages_fit s" and "[] \<notin> set (pages s)"
    and "commits_fit [c] s" and "c \<noteq> EnsureNewPage"
  shows "[] \<notin> set (pages (snd (exec c s)))"
proof (cases c)
  case (Commit node)
  have last_in: "last (pages s) \<in> set (pages s)"
    using assms(1) by simp
  then have last_ne: "last (pages s) \<noteq> []"
    using assms(3) by metis
  have last_fit: "length (last (pages s)) \<le> sizeLimit s"
    using assms(2) last_in by (simp add: pages_fit_def)
  have "sizeLimit s < length (last (pages s)) + length (buffer s) \<Longrightarrow> buffer s \<noteq> []"
    using last_fit by auto
  with Commit assms(1,3) last_ne show ?thesis
    by (auto simp: commit_cases dest: in_set_butlastD)
next
  case ReadPage
  have "set (tl (pages s)) \<subseteq> set (pages s)"
    by (cases "pages s") auto
  with ReadPage assms(3) show ?thesis
    by (auto simp: readPage_cases)
qed (use assms in \<open>simp_all add: writeString_def isPageAndBufferOverSize_cases\<close>)

lemma after_pages_all_nonempty:
  "pages s \<noteq> [] \<Longrightarrow> pages_fit s \<Longrightarrow> [] \<notin> set (pages s) \<Longrightarrow> commits_fit cs s \<Longrightarrow>
     EnsureNewPage \<notin> set cs \<Longrightarrow> [] \<notin> set (pages (after cs s))"
proof (induction cs arbitrary: s)
  case Nil
  then show ?case by simp
next
  case (Cons c cs)
  from Cons.prems(4) have one: "commits_fit [c] s" and rest: "commits_fit cs (snd (exec c s))"
    by (simp_all add: commits_fit_Cons [of c cs])
  from Cons.prems(5) have c: "c \<noteq> EnsureNewPage" and cs: "EnsureNewPage \<notin> set cs"
    by auto
  have "[] \<notin> set (pages (after cs (snd (exec c s))))"
    using Cons.prems(1,2,3) one rest c cs
    by (intro Cons.IH exec_pages_nonempty exec_pages_fit exec_pages_all_nonempty)
  then show ?case by simp
qed

lemma exec_first_page:
  assumes "pages s = [[]]" and "commits_fit [c] s" and "c \<noteq> EnsureNewPage"
  shows "if text_committed [c] s then [] \<notin> set (pages (snd (exec c s)))
         else pages (snd (exec c s)) = [[]]"
proof (cases c)
  case (Commit node)
  with assms show ?thesis
    by (simp add: commit_cases)
qed (use assms in \<open>simp_all add: writeString_def isPageAndBufferOverSize_cases readPage_cases\<close>)

lemma after_first_page:
  "pages s = [[]] \<Longrightarrow> commits_fit cs s \<Longrightarrow> EnsureNewPage \<notin> set cs \<Longrightarrow>
     (if text_committed cs s then [] \<notin> set (pages (after cs s))
      else pages (after cs s) = [[]])"
proof (induction cs arbitrary: s)
  case Nil
  then show ?case by simp
next
  case (Cons c cs)
  let ?s1 = "snd (exec c s)"
  from Cons.prems(2) have one: "commits_fit [c] s" and rest: "commits_fit cs ?s1"
    by (simp_all add: commits_fit_Cons [of c cs])
  from Cons.prems(3) have c: "c \<noteq> EnsureNewPage" and cs: "EnsureNewPage \<notin> set cs"
    by auto
  have ne: "pages s \<noteq> []" and fit: "pages_fit s"
    using Cons.prems(1) by (simp_all add: pages_fit_def)
  note step = exec_first_page [OF Cons.prems(1) one c]
  show ?case
  proof (cases "text_committed [c] s")
    case True
    with step have "[] \<notin> set (pages ?s1)" by simp
    then have "[] \<notin> set (pages (after cs ?s1))"
      using ne fit one rest cs
      by (intro after_pages_all_nonempty exec_pages_nonempty exec_pages_fit)
    with True show ?thesis
      by (simp add: text_committed_Cons [of c cs])
  next
    case False
    with step have "pages ?s1 = [[]]" by simp
    from Cons.IH [OF this rest cs] False show ?thesis
      by (simp add: text_committed_Cons [of c cs])
  qed
qed

lemma commit_text_pages_nonempty:
  assumes "pages s \<noteq> []" and "closed_pages_nonempty s" and "buffer s \<noteq> []"
    and "fst (commit node s) = Inr ()"
  shows "[] \<notin> set (pages (snd (commit node s)))"
  using assms
  by (auto simp: commit_cases closed_pages_nonempty_def set_butlast_last [of "pages s"]
           split: if_splits)

section \<open>The claims\<close>

subsection \<open>A commit that throws\<close>

text \<open>
  C1. When \<open>commit\<close> throws the oversize error, the object is as it was before
  the call: the buffer still holds the uncommitted text, and the pages and the
  last committed node are unchanged.
\<close>

theorem commit_oversize_state_unchanged:
  "commit node s = (Inl OversizeCommit, s') \<Longrightarrow>
     s' = s \<and> buffer s' = buffer s \<and> pages s' = pages s
       \<and> lastCommittedNode s' = lastCommittedNode s"
  by (auto simp: commit_def ensureNewPage_def
           split: sum.splits option.splits if_splits prod.splits)

theorem commit_oversize_state_unchanged_witness:
  "commit (0::nat) \<lparr>buffer = ''abcdef'', pages = [''''], lastCommittedNode = None, sizeLimit = 5\<rparr>
     = (Inl OversizeCommit,
        \<lparr>buffer = ''abcdef'', pages = [''''], lastCommittedNode = None, sizeLimit = 5\<rparr>)
   \<and> buffer \<lparr>buffer = ''abcdef'', pages = [''''], lastCommittedNode = (None :: nat option), sizeLimit = 5\<rparr>
       = ''abcdef''"
  using commit_oversize_state_unchanged
    [of "0::nat" "\<lparr>buffer = ''abcdef'', pages = [''''], lastCommittedNode = None, sizeLimit = 5\<rparr>"
        "\<lparr>buffer = ''abcdef'', pages = [''''], lastCommittedNode = None, sizeLimit = 5\<rparr>"]
  by (simp add: commit_def isPageAndBufferOverSize_def currentPage_def)

text \<open>
  C2. The claim is that a commit that returns leaves a current page no longer
  than the size limit. With a limit of 5, after \<open>writeString("ab")\<close>,
  \<open>commit\<close> and \<open>writeString("abcdef")\<close>, the next \<open>commit\<close> finds the
  current page non-empty, so it does not throw; it starts a new page and
  appends the six characters to it. The commit returns and the current page has
  length 6.
\<close>

theorem commit_rollover_oversize_page:
  "commit (1::nat) (after [WriteString ''ab'', Commit 0, WriteString ''abcdef''] (new_stream 5))
     = (Inr (), \<lparr>buffer = [], pages = [''ab'', ''abcdef''], lastCommittedNode = Some 1,
                 sizeLimit = 5\<rparr>)
   \<and> map_option length
        (currentPage (snd (commit (1::nat)
           (after [WriteString ''ab'', Commit 0, WriteString ''abcdef''] (new_stream 5))))) = Some 6"
  by (simp add: new_stream_def writeString_def commit_cases currentPage_last)

text \<open>
  C3. On an object with a current page, \<open>commit\<close> throws the oversize error
  exactly when the current page is empty and the buffer alone is longer than
  the size limit; it throws nothing else; and a call that throws is a call of
  \<open>commit\<close>: \<open>writeString\<close>, \<open>getPosition\<close>, \<open>isPageAndBufferOverSize\<close>,
  \<open>ensureNewPage\<close>, \<open>getLastCommittedNode\<close>, \<open>peekPage\<close> and \<open>readPage\<close>
  always return.
\<close>

theorem commit_throws_iff:
  "pages s \<noteq> [] \<Longrightarrow>
     (fst (commit node s) = Inl OversizeCommit
        \<longleftrightarrow> currentPage s = Some [] \<and> sizeLimit s < length (buffer s))
     \<and> (\<forall>e. fst (commit node s) = Inl e \<longrightarrow> e = OversizeCommit)
     \<and> (\<forall>e. fst (exec c s) = Inl e \<longrightarrow> (\<exists>n. c = Commit n))"
  by (cases c) (auto simp: commit_cases currentPage_last isPageAndBufferOverSize_cases
      ensureNewPage_cases readPage_cases)

theorem commit_throws_iff_witness:
  "pages \<lparr>buffer = ''abcdef'', pages = [''''], lastCommittedNode = (None :: nat option), sizeLimit = 5\<rparr> \<noteq> []
   \<and> fst (commit (0::nat)
        \<lparr>buffer = ''abcdef'', pages = [''''], lastCommittedNode = None, sizeLimit = 5\<rparr>)
       = Inl OversizeCommit
   \<and> fst (exec (Commit (0::nat))
        \<lparr>buffer = ''abcdef'', pages = [''''], lastCommittedNode = None, sizeLimit = 5\<rparr>)
       = Inl OversizeCommit"
  using commit_throws_iff
    [of "\<lparr>buffer = ''abcdef'', pages = [''''], lastCommittedNode = (None :: nat option), sizeLimit = 5\<rparr>"
        "0::nat" "Commit (0::nat)"]
  by (simp add: commit_cases)

subsection \<open>Sequences of calls on a new stream\<close>

text \<open>
  C4. Take any sequence of calls on a new stream (in particular one of
  \<open>writeString\<close> and \<open>commit\<close> calls only) in which every \<open>commit\<close> finds
  a buffer no longer than the size limit. After every call of the sequence,
  that is after each of its prefixes, every page is no longer than the limit.
\<close>

theorem pages_within_sizeLimit:
  "commits_fit cs (new_stream lim) \<Longrightarrow>
     p \<in> set (pages (after (take k cs) (new_stream lim))) \<Longrightarrow> length p \<le> lim"
proof -
  assume fit: "commits_fit cs (new_stream lim)"
    and p: "p \<in> set (pages (after (take k cs) (new_stream lim)))"
  have ne: "pages (new_stream lim :: 'a PagedDuplexStream) \<noteq> []"
    by (simp add: new_stream_def)
  have "pages_fit (new_stream lim :: 'a PagedDuplexStream)"
    by (simp add: pages_fit_def new_stream_def)
  with ne fit have "pages_fit (after (take k cs) (new_stream lim))"
    by (intro after_pages_fit commits_fit_take)
  moreover have "sizeLimit (after (take k cs) (new_stream lim :: 'a PagedDuplexStream)) = lim"
    using ne by (simp add: after_sizeLimit new_stream_def)
  ultimately show ?thesis using p by (simp add: pages_fit_def)
qed

theorem pages_within_sizeLimit_witness:
  "commits_fit [WriteString ''abcde'', Commit (0::nat), WriteString ''fghij'', Commit 1,
                WriteString ''k'', Commit 2] (new_stream 10)
   \<and> pages (after (take 6 [WriteString ''abcde'', Commit (0::nat), WriteString ''fghij'', Commit 1,
                            WriteString ''k'', Commit 2]) (new_stream 10))
       = [''abcdefghij'', ''k'']
   \<and> length ''abcdefghij'' \<le> (10::nat)"
  using pages_within_sizeLimit
    [of "[WriteString ''abcde'', Commit (0::nat), WriteString ''fghij'', Commit 1,
          WriteString ''k'', Commit 2]" 10 "''abcdefghij''" 6]
  by (simp add: new_stream_def writeString_def commit_cases)

text \<open>
  C5. The claim is that the pages returned by \<open>readPage\<close> followed by the pages
  still held make up all the text passed to \<open>writeString\<close>. After a single
  \<open>writeString("abc")\<close> on a new stream the only page is still empty: the text
  is in the buffer until the next commit.
\<close>

theorem pages_concat_counterexample:
  "commits_fit [WriteString ''abc''] (new_stream 10 :: nat PagedDuplexStream)
   \<and> concat (drained [WriteString ''abc''] (new_stream 10 :: nat PagedDuplexStream))
       @ concat (pages (after [WriteString ''abc''] (new_stream 10 :: nat PagedDuplexStream)))
     \<noteq> concat (written [WriteString ''abc'' :: nat call])"
  by (simp add: new_stream_def writeString_def)

text \<open>
  C5, amended. For every sequence of calls on a new stream, the pages returned
  by \<open>readPage\<close>, then the pages still held, then the uncommitted buffer make
  up, in order, exactly the text passed to \<open>writeString\<close>. This needs no
  bound on the commits: a commit that throws leaves the buffer as it is.
\<close>

theorem written_text_preserved:
  "concat (drained cs (new_stream lim)) @ concat (pages (after cs (new_stream lim)))
     @ buffer (after cs (new_stream lim)) = concat (written cs)"
proof -
  have "pages (new_stream lim :: 'a PagedDuplexStream) \<noteq> []"
    by (simp add: new_stream_def)
  from after_text_preserved [OF this, of cs] show ?thesis
    by (simp add: new_stream_def)
qed

theorem written_text_preserved_witness:
  "concat (drained [WriteString ''ab'', Commit (0::nat), WriteString ''cdef'', Commit 1,
                    ReadPage, WriteString ''g''] (new_stream 5)) = ''ab''
   \<and> pages (after [WriteString ''ab'', Commit (0::nat), WriteString ''cdef'', Commit 1,
                   ReadPage, WriteString ''g''] (new_stream 5)) = [''cdef'']
   \<and> buffer (after [WriteString ''ab'', Commit (0::nat), WriteString ''cdef'', Commit 1,
                    ReadPage, WriteString ''g''] (new_stream 5)) = ''g''
   \<and> concat (written [WriteString ''ab'', Commit (0::nat), WriteString ''cdef'', Commit 1,
                      ReadPage, WriteString ''g'']) = ''abcdefg''"
  using written_text_preserved
    [of "[WriteString ''ab'', Commit (0::nat), WriteString ''cdef'', Commit 1,
          ReadPage, WriteString ''g'']" 5]
  by (simp add: new_stream_def writeString_def commit_cases readPage_cases)

subsection \<open>Reading pages\<close>

text \<open>
  C6. \<open>readPage\<close> on fewer than two pages returns nothing and leaves the object
  as it is. On two pages or more it returns the first page and removes exactly
  that page: one page fewer, every later page one index lower with its content,
  and the buffer, the last committed node and the size limit unchanged.
\<close>

theorem readPage_fifo:
  "(length (pages s) < 2 \<longrightarrow> readPage s = (None, s))
   \<and> (2 \<le> length (pages s) \<longrightarrow>
        fst (readPage s) = Some (pages s ! 0)
        \<and> length (pages (snd (readPage s))) = length (pages s) - 1
        \<and> (\<forall>i < length (pages (snd (readPage s))). pages (snd (readPage s)) ! i = pages s ! Suc i)
        \<and> pages s = pages s ! 0 # pages (snd (readPage s))
        \<and> buffer (snd (readPage s)) = buffer s
        \<and> lastCommittedNode (snd (readPage s)) = lastCommittedNode s
        \<and> sizeLimit (snd (readPage s)) = sizeLimit s)"
  by (cases "pages s") (auto simp: readPage_def)

theorem readPage_fifo_witness:
  "2 \<le> length (pages \<lparr>buffer = ''x'', pages = [''ab'', ''cd'', ''''],
                        lastCommittedNode = Some (7::nat), sizeLimit = 2\<rparr>)
   \<and> readPage \<lparr>buffer = ''x'', pages = [''ab'', ''cd'', ''''],
                lastCommittedNode = Some (7::nat), sizeLimit = 2\<rparr>
       = (Some ''ab'', \<lparr>buffer = ''x'', pages = [''cd'', ''''],
                         lastCommittedNode = Some 7, sizeLimit = 2\<rparr>)
   \<and> length (pages \<lparr>buffer = ''x'', pages = [''ab''],
                     lastCommittedNode = Some (7::nat), sizeLimit = 2\<rparr>) < 2
   \<and> readPage \<lparr>buffer = ''x'', pages = [''ab''], lastCommittedNode = Some (7::nat), sizeLimit = 2\<rparr>
       = (None, \<lparr>buffer = ''x'', pages = [''ab''], lastCommittedNode = Some 7, sizeLimit = 2\<rparr>)"
  using readPage_fifo
    [of "\<lparr>buffer = ''x'', pages = [''ab'', ''cd'', ''''],
          lastCommittedNode = Some (7::nat), sizeLimit = 2\<rparr>"]
    readPage_fifo
    [of "\<lparr>buffer = ''x'', pages = [''ab''], lastCommittedNode = Some (7::nat), sizeLimit = 2\<rparr>"]
  by (simp add: readPage_cases)

subsection \<open>Empty pages\<close>

text \<open>
  C7. The claim is that an empty page can only be the first page before any
  commit, and that after a commit no page is empty. A commit of an empty buffer
  on a new stream leaves the single page empty; and after \<open>writeString("a")\<close>,
  \<open>commit\<close> and \<open>ensureNewPage\<close> the second page is empty.
\<close>

theorem empty_page_counterexample:
  "pages (after [Commit 0] (new_stream 10 :: nat PagedDuplexStream)) = ['''']
   \<and> lastCommittedNode (after [Commit 0] (new_stream 10 :: nat PagedDuplexStream)) = Some 0
   \<and> pages (after [WriteString ''a'', Commit 0, EnsureNewPage]
               (new_stream 10 :: nat PagedDuplexStream)) = [''a'', '''']"
  by (simp add: new_stream_def writeString_def commit_cases ensureNewPage_cases)

text \<open>
  C7, amended. After every sequence of calls on a new stream, every page
  before the current one is non-empty, so no two consecutive pages are both
  empty and an empty page can only be the current page. Right after a
  \<open>commit\<close> that found text in the buffer and returned, no page is empty.
  And in a sequence without a call of \<open>ensureNewPage\<close> in which every
  \<open>commit\<close> finds a buffer no longer than the size limit, an empty page can
  only be the very first page while no commit of text has returned (the pages
  are then the single empty page); once a commit of text has returned, no page
  is empty.
\<close>

theorem empty_page_only_without_text:
  "(Suc i < length (pages (after cs (new_stream lim))) \<longrightarrow>
      pages (after cs (new_stream lim)) ! i \<noteq> []
      \<and> \<not> (pages (after cs (new_stream lim)) ! i = []
            \<and> pages (after cs (new_stream lim)) ! Suc i = []))
   \<and> (buffer (after cs (new_stream lim)) \<noteq> []
        \<and> fst (commit node (after cs (new_stream lim))) = Inr () \<longrightarrow>
      [] \<notin> set (pages (snd (commit node (after cs (new_stream lim))))))
   \<and> (commits_fit cs (new_stream lim) \<and> EnsureNewPage \<notin> set cs \<longrightarrow>
      (if text_committed cs (new_stream lim)
       then [] \<notin> set (pages (after cs (new_stream lim)))
       else pages (after cs (new_stream lim)) = [[]]))"
proof (intro conjI impI)
  assume "Suc i < length (pages (after cs (new_stream lim)))"
  with closed_pages_nonempty_nth [OF new_stream_closed_pages_nonempty]
  show "pages (after cs (new_stream lim)) ! i \<noteq> []" by blast
  then show "\<not> (pages (after cs (new_stream lim)) ! i = []
            \<and> pages (after cs (new_stream lim)) ! Suc i = [])" by simp
next
  assume "buffer (after cs (new_stream lim)) \<noteq> []
        \<and> fst (commit node (after cs (new_stream lim))) = Inr ()"
  then show "[] \<notin> set (pages (snd (commit node (after cs (new_stream lim)))))"
    by (intro commit_text_pages_nonempty new_stream_pages_nonempty
          new_stream_closed_pages_nonempty) simp_all
next
  assume "commits_fit cs (new_stream lim) \<and> EnsureNewPage \<notin> set cs"
  then show "if text_committed cs (new_stream lim)
       then [] \<notin> set (pages (after cs (new_stream lim)))
       else pages (after cs (new_stream lim)) = [[]]"
    by (intro after_first_page) (simp_all add: new_stream_def)
qed

theorem empty_page_only_without_text_witness:
  "Suc 0 < length (pages (after [WriteString ''ab'', Commit (0::nat), WriteString ''c'', Commit 1,
                                 WriteString ''d''] (new_stream 2)))
   \<and> buffer (after [WriteString ''ab'', Commit (0::nat), WriteString ''c'', Commit 1,
                    WriteString ''d''] (new_stream 2)) = ''d''
   \<and> commit (2::nat) (after [WriteString ''ab'', Commit (0::nat), WriteString ''c'', Commit 1,
                             WriteString ''d''] (new_stream 2))
       = (Inr (), \<lparr>buffer = [], pages = [''ab'', ''cd''], lastCommittedNode = Some 2,
                   sizeLimit = 2\<rparr>)
   \<and> commits_fit [WriteString ''ab'', Commit (0::nat), WriteString ''c'', Commit 1,
                  WriteString ''d''] (new_stream 2)
   \<and> EnsureNewPage \<notin> set [WriteString ''ab'', Commit (0::nat), WriteString ''c'', Commit 1,
                           WriteString ''d'']
   \<and> text_committed [WriteString ''ab'', Commit (0::nat), WriteString ''c'', Commit 1,
                     WriteString ''d''] (new_stream 2)
   \<and> pages (after [WriteString ''ab'', Commit (0::nat), WriteString ''c'', Commit 1,
                   WriteString ''d''] (new_stream 2)) = [''ab'', ''c'']"
  using empty_page_only_without_text
    [of 0 "[WriteString ''ab'', Commit (0::nat), WriteString ''c'', Commit 1, WriteString ''d'']"
        2 "2::nat"]
  by (simp add: new_stream_def writeString_def commit_cases)

text \<open>
  C8. After every sequence of calls on a new stream, a page returned by
  \<open>peekPage\<close> or by \<open>readPage\<close> is never the empty string.
\<close>

theorem ready_page_nonempty:
  "(peekPage (after cs (new_stream lim)) = Some p \<longrightarrow> p \<noteq> [])
   \<and> (fst (readPage (after cs (new_stream lim))) = Some p \<longrightarrow> p \<noteq> [])"
  using closed_pages_nonempty_nth [OF new_stream_closed_pages_nonempty, of 0 cs lim]
    new_stream_pages_nonempty [of cs lim]
  by (auto simp: peekPage_def readPage_cases hd_conv_nth split: if_splits)

theorem ready_page_nonempty_witness:
  "peekPage (after [WriteString ''a'', Commit (0::nat), EnsureNewPage] (new_stream 10)) = Some ''a''
   \<and> fst (readPage (after [WriteString ''a'', Commit (0::nat), EnsureNewPage] (new_stream 10)))
       = Some ''a''
   \<and> ''a'' \<noteq> []"
  using ready_page_nonempty
    [of "[WriteString ''a'', Commit (0::nat), EnsureNewPage]" 10 "''a''"]
  by (simp add: new_stream_def writeString_def commit_cases ensureNewPage_cases
        peekPage_def readPage_cases)

subsection \<open>Commits that stay on the page\<close>

text \<open>
  C9. When the length of the current page plus the length of the buffer is
  exactly the size limit, \<open>isPageAndBufferOverSize\<close> returns false and
  \<open>commit\<close> pushes no page: the buffer is appended to the current page and the
  number of pages is unchanged.
\<close>

theorem commit_at_limit_no_rollover:
  "currentPage s = Some p \<Longrightarrow> length p + length (buffer s) = sizeLimit s \<Longrightarrow>
     isPageAndBufferOverSize s = Inr False
     \<and> commit node s =
         (Inr (), s\<lparr>pages := butlast (pages s) @ [p @ buffer s], buffer := [],
                    lastCommittedNode := Some node\<rparr>)
     \<and> length (pages (snd (commit node s))) = length (pages s)"
  by (auto dest!: currentPage_SomeD simp: isPageAndBufferOverSize_cases commit_cases)

theorem commit_at_limit_no_rollover_witness:
  "currentPage \<lparr>buffer = ''fghij'', pages = [''abcde''],
                lastCommittedNode = Some (0::nat), sizeLimit = 10\<rparr> = Some ''abcde''
   \<and> length ''abcde'' + length ''fghij'' = (10::nat)
   \<and> commit (1::nat) \<lparr>buffer = ''fghij'', pages = [''abcde''],
                       lastCommittedNode = Some 0, sizeLimit = 10\<rparr>
       = (Inr (), \<lparr>buffer = [], pages = [''abcdefghij''],
                   lastCommittedNode = Some 1, sizeLimit = 10\<rparr>)"
  using commit_at_limit_no_rollover
    [of "\<lparr>buffer = ''fghij'', pages = [''abcde''],
          lastCommittedNode = Some (0::nat), sizeLimit = 10\<rparr>" "''abcde''" "1::nat"]
  by (simp add: currentPage_def)

text \<open>
  C10. When the current page is no longer than the size limit and the buffer is
  empty, \<open>commit\<close> returns, leaves the pages and the buffer as they are and
  records the node.
\<close>

theorem commit_empty_buffer_tags_node:
  "currentPage s = Some p \<Longrightarrow> length p \<le> sizeLimit s \<Longrightarrow> buffer s = [] \<Longrightarrow>
     commit node s = (Inr (), s\<lparr>lastCommittedNode := Some node\<rparr>)
     \<and> pages (snd (commit node s)) = pages s
     \<and> buffer (snd (commit node s)) = buffer s
     \<and> lastCommittedNode (snd (commit node s)) = Some node"
  by (auto dest!: currentPage_SomeD simp: commit_cases)

theorem commit_empty_buffer_tags_node_witness:
  "currentPage \<lparr>buffer = '''', pages = [''ab'', ''cde''],
                lastCommittedNode = Some (0::nat), sizeLimit = 10\<rparr> = Some ''cde''
   \<and> length ''cde'' \<le> (10::nat)
   \<and> commit (1::nat) \<lparr>buffer = '''', pages = [''ab'', ''cde''],
                       lastCommittedNode = Some 0, sizeLimit = 10\<rparr>
       = (Inr (), \<lparr>buffer = '''', pages = [''ab'', ''cde''],
                   lastCommittedNode = Some 1, sizeLimit = 10\<rparr>)"
  using commit_empty_buffer_tags_node
    [of "\<lparr>buffer = '''', pages = [''ab'', ''cde''],
          lastCommittedNode = Some (0::nat), sizeLimit = 10\<rparr>" "''cde''" "1::nat"]
  by (simp add: currentPage_def)

end
